theory Spec2Isabelle
  imports Main
begin

section \<open>JavaScript strings\<close>

text \<open>
  A JavaScript string is a sequence of UTF-16 code units. A code unit is modelled by its
  number (below 65536); no arithmetic on code units overflows in the code modelled here.
  A character outside the Basic Multilingual Plane is two code units (a surrogate pair);
  the regular expressions of \<^verbatim>\<open>MessageBubble.tsx\<close> carry no \<^verbatim>\<open>u\<close> flag, so they work on
  code units too.
\<close>

type_synonym code_unit = nat
type_synonym jsstring = "code_unit list"

text \<open>An ASCII literal of the source, as code units.\<close>

definition js :: "string \<Rightarrow> jsstring" where
  "js s = map of_char s"

text \<open>The paperclip glyph U+1F4CE of \<^verbatim>\<open>filePattern\<close>: the surrogate pair D83D DCCE.\<close>

definition paperclip :: jsstring where
  "paperclip = [55357, 56526]"

text \<open>
  Character classes of ECMAScript regular expressions: a line terminator (what \<^verbatim>\<open>.\<close>
  refuses), white space (\<^verbatim>\<open>\s\<close>, also what \<^verbatim>\<open>trim\<close> strips) and a word character (\<^verbatim>\<open>\w\<close>).
\<close>

definition isLineTerminator :: "code_unit \<Rightarrow> bool" where
  "isLineTerminator c = (c = 10 \<or> c = 13 \<or> c = 8232 \<or> c = 8233)"

definition isWhiteSpace :: "code_unit \<Rightarrow> bool" where
  "isWhiteSpace c =
     (c = 9 \<or> c = 10 \<or> c = 11 \<or> c = 12 \<or> c = 13 \<or> c = 32 \<or> c = 160 \<or> c = 5760
      \<or> (8192 \<le> c \<and> c \<le> 8202) \<or> c = 8232 \<or> c = 8233 \<or> c = 8239 \<or> c = 8287
      \<or> c = 12288 \<or> c = 65279)"

definition isWordChar :: "code_unit \<Rightarrow> bool" where
  "isWordChar c =
     ((48 \<le> c \<and> c \<le> 57) \<or> (65 \<le> c \<and> c \<le> 90) \<or> c = 95 \<or> (97 \<le> c \<and> c \<le> 122))"

definition startsWith :: "jsstring \<Rightarrow> jsstring \<Rightarrow> bool" where
  "startsWith p s = (take (length p) s = p)"

text \<open>\<^verbatim>\<open>String.prototype.trim\<close>.\<close>

definition trim :: "jsstring \<Rightarrow> jsstring" where
  "trim s = rev (dropWhile isWhiteSpace (rev (dropWhile isWhiteSpace s)))"

text \<open>
  \<^verbatim>\<open>s.replace(pattern, '')\<close> with a string pattern: the first occurrence of the pattern is
  removed, and a string that does not hold the pattern is returned as it is.
\<close>

fun removeFirst :: "jsstring \<Rightarrow> jsstring \<Rightarrow> jsstring" where
  "removeFirst pat [] = []"
| "removeFirst pat (c # cs) =
     (if startsWith pat (c # cs) then drop (length pat) (c # cs)
      else c # removeFirst pat cs)"

text \<open>
  \<^verbatim>\<open>toLowerCase\<close>, on the letters A to Z. The code only compares its result with ASCII
  extension names (none of which holds a \<^verbatim>\<open>k\<close>, the one ASCII letter that a non-ASCII code
  unit lowers to), so the other code units are left as they are.
\<close>

definition toLowerCase :: "jsstring \<Rightarrow> jsstring" where
  "toLowerCase s = map (\<lambda>c. if 65 \<le> c \<and> c \<le> 90 then c + 32 else c) s"

text \<open>\<^verbatim>\<open>fileName.split('.').pop()\<close>: what follows the last dot, or the whole name.\<close>

definition lastSegment :: "jsstring \<Rightarrow> jsstring" where
  "lastSegment s = rev (takeWhile (\<lambda>c. c \<noteq> 46) (rev s))"

section \<open>Regular expressions of formatMessageContent\<close>

text \<open>
  A regular expression is modelled by its matcher at the start of a given rest of the
  input: the result is \<^verbatim>\<open>match[0]\<close> with the list of captures \<^verbatim>\<open>match[1..]\<close>, or None.
  None of the expressions looks behind the position it starts at, and \<^verbatim>\<open>$\<close> (no \<^verbatim>\<open>m\<close>
  flag) is the end of the input.
\<close>

type_synonym regexp = "jsstring \<Rightarrow> (jsstring \<times> jsstring list) option"

text \<open>
  The lazy \<^verbatim>\<open>.*?\<close> followed by a continuation \<open>k\<close>: the continuation is tried first on
  what has been consumed so far, and one more code unit that is no line terminator is
  consumed only when it fails.
\<close>

fun lazyDot :: "(jsstring \<Rightarrow> jsstring \<Rightarrow> 'a option) \<Rightarrow> jsstring \<Rightarrow> jsstring \<Rightarrow> 'a option" where
  "lazyDot k acc [] = k acc []"
| "lazyDot k acc (c # cs) =
     (case k acc (c # cs) of
        Some r \<Rightarrow> Some r
      | None \<Rightarrow> if isLineTerminator c then None else lazyDot k (acc @ [c]) cs)"

text \<open>\<^verbatim>\<open>/G (.+?)(?:\n|$)/\<close> of line 147, where \<^verbatim>\<open>G\<close> stands for the glyph U+1F4CE.\<close>

definition filePattern :: regexp where
  "filePattern s =
     (if startsWith (paperclip @ [32]) s then
        (case drop 3 s of
           [] \<Rightarrow> None
         | c # cs \<Rightarrow>
             if isLineTerminator c then None
             else lazyDot
               (\<lambda>cap rest.
                  case rest of
                    [] \<Rightarrow> Some (paperclip @ [32] @ cap, [cap])
                  | d # _ \<Rightarrow> if d = 10 then Some (paperclip @ [32] @ cap @ [10], [cap]) else None)
               [c] cs)
      else None)"

text \<open>\<^verbatim>\<open>/!\[(.*?)\]\((.*?)\)/\<close> of line 168.\<close>

definition imageRegex :: regexp where
  "imageRegex s =
     (if startsWith (js ''!['') s then
        lazyDot
          (\<lambda>alt rest.
             if startsWith (js '']('') rest then
               lazyDot
                 (\<lambda>url rest'.
                    case rest' of
                      [] \<Rightarrow> None
                    | d # _ \<Rightarrow>
                        if d = 41 then Some (js ''!['' @ alt @ js ''](''  @ url @ [41], [alt, url])
                        else None)
                 [] (drop 2 rest)
             else None)
          [] (drop 2 s)
      else None)"

text \<open>
  \<^verbatim>\<open>/(https?:\/\/[^\s]+)/\<close> of line 174. The greedy \<^verbatim>\<open>s?\<close> is tried with the \<^verbatim>\<open>s\<close> first;
  nothing follows \<^verbatim>\<open>[^\s]+\<close>, so it takes the whole run of non-space code units.
\<close>

definition urlAfter :: "jsstring \<Rightarrow> jsstring \<Rightarrow> (jsstring \<times> jsstring list) option" where
  "urlAfter scheme s =
     (if startsWith scheme s then
        (let run = takeWhile (\<lambda>c. \<not> isWhiteSpace c) (drop (length scheme) s)
         in if run = [] then None else Some (scheme @ run, [scheme @ run]))
      else None)"

definition urlRegex :: regexp where
  "urlRegex s =
     (case urlAfter (js ''https://'') s of
        Some r \<Rightarrow> Some r
      | None \<Rightarrow> urlAfter (js ''http://'') s)"

text \<open>
  \<^verbatim>\<open>/@(\w+)(?!zani)/\<close> of line 164. The greedy \<^verbatim>\<open>\w+\<close> first takes the whole run of word
  characters; the negative lookahead is tested where the run ends, and when it refuses,
  the run is given back one character at a time (at least one is kept).
  \<open>lookaheadFrom n cs\<close> is the longest length, at most \<open>n\<close> and at least one, after which
  \<open>cs\<close> does not go on with \<^verbatim>\<open>zani\<close>.
\<close>

fun lookaheadFrom :: "nat \<Rightarrow> jsstring \<Rightarrow> nat option" where
  "lookaheadFrom 0 cs = None"
| "lookaheadFrom (Suc n) cs =
     (if startsWith (js ''zani'') (drop (Suc n) cs) then lookaheadFrom n cs
      else Some (Suc n))"

definition mentionRegex :: regexp where
  "mentionRegex s =
     (case s of
        [] \<Rightarrow> None
      | c # cs \<Rightarrow>
          if c = 64 then
            (case lookaheadFrom (length (takeWhile isWordChar cs)) cs of
               None \<Rightarrow> None
             | Some n \<Rightarrow> Some (64 # take n cs, [take n cs]))
          else None)"

text \<open>\<^verbatim>\<open>/#(\w+)/\<close> of line 165.\<close>

definition channelRegex :: regexp where
  "channelRegex s =
     (case s of
        [] \<Rightarrow> None
      | c # cs \<Rightarrow>
          if c = 35 then
            (let run = takeWhile isWordChar cs
             in if run = [] then None else Some (35 # run, [run]))
          else None)"

text \<open>
  \<^verbatim>\<open>/\*([^*]+)\*/\<close>, \<^verbatim>\<open>/\_([^_]+)\_/\<close> and \<^verbatim>\<open>/`([^`]+)`/\<close> of lines 187 to 189, for the
  delimiter \<open>d\<close>. The greedy class takes the whole run of code units other than the
  delimiter (line terminators too); the closing delimiter must follow the run, since a
  shorter run is followed by a code unit of the run.
\<close>

definition delimited :: "code_unit \<Rightarrow> regexp" where
  "delimited d s =
     (case s of
        [] \<Rightarrow> None
      | c # cs \<Rightarrow>
          if c = d then
            (let run = takeWhile (\<lambda>x. x \<noteq> d) cs
             in if run \<noteq> [] \<and> startsWith [d] (drop (length run) cs)
                then Some (d # run @ [d], [run]) else None)
          else None)"

text \<open>
  \<^verbatim>\<open>s.replace(re, f)\<close> for a global expression: the input is scanned from the left, every
  match is replaced by what \<open>f\<close> makes of it, and the scan goes on behind the match
  (one code unit further when the match is empty).
\<close>

function replaceAll :: "regexp \<Rightarrow> (jsstring \<Rightarrow> jsstring list \<Rightarrow> jsstring) \<Rightarrow> jsstring \<Rightarrow> jsstring" where
  "replaceAll re f [] = (case re [] of Some (m, caps) \<Rightarrow> f m caps | None \<Rightarrow> [])"
| "replaceAll re f (c # cs) =
     (case re (c # cs) of
        Some (m, caps) \<Rightarrow>
          if m = [] then f m caps @ c # replaceAll re f cs
          else f m caps @ replaceAll re f (drop (length m - 1) cs)
      | None \<Rightarrow> c # replaceAll re f cs)"
  by pat_completeness auto
termination
  by (relation "measure (\<lambda>(re, f, s). length s)") auto

text \<open>
  The loop \<^verbatim>\<open>while ((match = filePattern.exec(content)) !== null)\<close> of line 152: the
  matches of the global expression in order, each search starting where the match before
  it ended. A match of \<open>filePattern\<close> is never empty.
\<close>

function execAll :: "regexp \<Rightarrow> jsstring \<Rightarrow> (jsstring \<times> jsstring list) list" where
  "execAll re [] = []"
| "execAll re (c # cs) =
     (case re (c # cs) of
        Some (m, caps) \<Rightarrow> (m, caps) # execAll re (drop (length m - 1) cs)
      | None \<Rightarrow> execAll re cs)"
  by pat_completeness auto
termination
  by (relation "measure (\<lambda>(re, s). length s)") auto

section \<open>Attachment resolution\<close>

text \<open>
  The attachment store is the item \<^verbatim>\<open>slackAI_files\<close> of \<^verbatim>\<open>localStorage\<close>. \<open>NoItem\<close>: the item
  is absent (or the empty string); \<open>Unreadable\<close>: \<^verbatim>\<open>JSON.parse\<close> or the search through
  the parsed value throws, which the \<^verbatim>\<open>try\<close> blocks of lines 209 and 233 catch;
  \<open>Stored\<close>: the values of the parsed object, in order. An entry may lack a url or a size.
\<close>

record file_entry =
  entry_name :: jsstring
  entry_url :: "jsstring option"
  entry_size :: "nat option"

datatype storage = NoItem | Unreadable | Stored "file_entry list"

text \<open>\<^verbatim>\<open>Object.values(files).find((file) => file.name === fileName)\<close>.\<close>

definition findEntry :: "storage \<Rightarrow> jsstring \<Rightarrow> file_entry option" where
  "findEntry st fileName =
     (case st of
        Stored entries \<Rightarrow> find (\<lambda>file. entry_name file = fileName) entries
      | _ \<Rightarrow> None)"

text \<open>Lines 194 to 203.\<close>

definition getFileType :: "jsstring \<Rightarrow> jsstring" where
  "getFileType fileName =
     (let extension = toLowerCase (lastSegment fileName)
      in if extension \<in> set (map js [''jpg'', ''jpeg'', ''png'', ''gif'', ''webp'', ''svg''])
         then js ''image/'' @ (if extension = js ''jpg'' then js ''jpeg'' else extension)
         else if extension = js ''pdf'' then js ''application/pdf''
         else if extension \<in> set (map js [''doc'', ''docx'']) then js ''application/msword''
         else if extension \<in> set (map js [''xls'', ''xlsx'']) then js ''application/excel''
         else js ''application/octet-stream'')"

text \<open>
  The browser's \<^verbatim>\<open>btoa\<close>: the Base64 text of a string of code units up to 255; any other
  string makes it throw an \<^verbatim>\<open>InvalidCharacterError\<close>.
\<close>

datatype js_error = InvalidCharacterError

definition base64Digit :: "nat \<Rightarrow> code_unit" where
  "base64Digit n =
     (if n < 26 then 65 + n else if n < 52 then 97 + (n - 26)
      else if n < 62 then 48 + (n - 52) else if n = 62 then 43 else 47)"

fun base64 :: "nat list \<Rightarrow> jsstring" where
  "base64 [] = []"
| "base64 [a] = [base64Digit (a div 4), base64Digit ((a mod 4) * 16), 61, 61]"
| "base64 [a, b] =
     [base64Digit (a div 4), base64Digit ((a mod 4) * 16 + b div 16),
      base64Digit ((b mod 16) * 4), 61]"
| "base64 (a # b # c # rest) =
     [base64Digit (a div 4), base64Digit ((a mod 4) * 16 + b div 16),
      base64Digit ((b mod 16) * 4 + c div 64), base64Digit (c mod 64)] @ base64 rest"

definition btoa :: "jsstring \<Rightarrow> js_error + jsstring" where
  "btoa s = (if list_all (\<lambda>c. c \<le> 255) s then Inr (base64 s) else Inl InvalidCharacterError)"

text \<open>Lines 205 to 227. The call of \<^verbatim>\<open>btoa\<close> in line 226 stands outside the \<^verbatim>\<open>try\<close> block.\<close>

definition fallbackUrl :: "jsstring \<Rightarrow> js_error + jsstring" where
  "fallbackUrl fileName =
     (let extension = toLowerCase (lastSegment fileName)
      in if extension \<in> set (map js [''jpg'', ''jpeg'', ''png'', ''gif'', ''webp''])
         then Inr (js ''/lovable-uploads/525e7c65-c028-4da7-a1e6-35cba7375353.png'')
         else (case btoa fileName of
                 Inl e \<Rightarrow> Inl e
               | Inr b \<Rightarrow> Inr (js ''data:application/octet-stream;base64,'' @ b)))"

definition getActualFileUrl :: "storage \<Rightarrow> jsstring \<Rightarrow> js_error + jsstring" where
  "getActualFileUrl st fileName =
     (case findEntry st fileName of
        None \<Rightarrow> fallbackUrl fileName
      | Some fileEntry \<Rightarrow>
          (case entry_url fileEntry of
             None \<Rightarrow> fallbackUrl fileName
           | Some u \<Rightarrow> if u \<noteq> [] then Inr u else fallbackUrl fileName))"

text \<open>
  Lines 229 to 246. \<^verbatim>\<open>Math.random\<close> is an input of the model: \<open>draws k\<close> is the value of
  \<^verbatim>\<open>Math.floor(Math.random() * 5000000)\<close> at the call number \<open>k\<close>, and the number of calls
  made so far is passed along. The result is the size with the new number of calls.
\<close>

definition getFileSize :: "storage \<Rightarrow> (nat \<Rightarrow> nat) \<Rightarrow> nat \<Rightarrow> jsstring \<Rightarrow> nat \<times> nat" where
  "getFileSize st draws k fileName =
     (case findEntry st fileName of
        None \<Rightarrow> (draws k + 100000, Suc k)
      | Some fileEntry \<Rightarrow>
          (case entry_size fileEntry of
             None \<Rightarrow> (draws k + 100000, Suc k)
           | Some n \<Rightarrow> if n \<noteq> 0 then (n, k) else (draws k + 100000, Suc k)))"

section \<open>formatMessageContent\<close>

record attachment =
  name :: jsstring
  type :: jsstring
  url :: jsstring
  size :: nat

record formatted =
  formattedContent :: jsstring
  files :: "attachment list"

text \<open>
  The body of the loop of lines 152 to 161, over the matches of \<open>filePattern\<close> in
  \<^verbatim>\<open>content\<close>: the working text, the attachments pushed so far and the number of calls of
  \<^verbatim>\<open>Math.random\<close> are passed along. An exception of \<open>getActualFileUrl\<close> leaves the loop
  and the function.
\<close>

fun extractFiles ::
  "storage \<Rightarrow> (nat \<Rightarrow> nat) \<Rightarrow> (jsstring \<times> jsstring list) list \<Rightarrow>
   jsstring \<Rightarrow> attachment list \<Rightarrow> nat \<Rightarrow> js_error + (jsstring \<times> attachment list)" where
  "extractFiles st draws [] textContent fs k = Inr (textContent, fs)"
| "extractFiles st draws ((m, caps) # ms) textContent fs k =
     (let fileName = trim (hd caps)
      in case getActualFileUrl st fileName of
           Inl e \<Rightarrow> Inl e
         | Inr u \<Rightarrow>
             (let (sz, k') = getFileSize st draws k fileName
              in extractFiles st draws ms (trim (removeFirst m textContent))
                   (fs @ [\<lparr>name = fileName, type = getFileType fileName, url = u, size = sz\<rparr>])
                   k'))"

text \<open>The replacements of lines 169 to 189, one definition for each \<^verbatim>\<open>replace\<close>.\<close>

definition imageStage :: "jsstring \<Rightarrow> jsstring" where
  \<open>imageStage s =
     replaceAll imageRegex
       (\<lambda>m caps.
          js ''<img src="'' @ (caps ! 1) @ js ''" alt="'' @ (caps ! 0)
          @ js ''" class="max-w-full rounded-md my-2 cursor-pointer hover:opacity-90 transition-opacity" style="max-height: 300px;" onclick="window.open(''
          @ [39] @ (caps ! 1) @ [39] @ js '', '' @ [39] @ js ''_blank'' @ [39] @ js '')" />'')
       s\<close>

definition urlStage :: "jsstring \<Rightarrow> jsstring" where
  \<open>urlStage s =
     replaceAll urlRegex
       (\<lambda>m caps.
          js ''<a href="'' @ (caps ! 0)
          @ js ''" target="_blank" rel="noopener noreferrer" class="text-blue-400 hover:underline">''
          @ (caps ! 0) @ js ''</a>'')
       s\<close>

definition mentionStage :: "jsstring \<Rightarrow> jsstring" where
  \<open>mentionStage s =
     replaceAll mentionRegex
       (\<lambda>m caps.
          js ''<span class="text-blue-400 hover:underline cursor-pointer">@'' @ (caps ! 0)
          @ js ''</span>'')
       s\<close>

definition channelStage :: "jsstring \<Rightarrow> jsstring" where
  \<open>channelStage s =
     replaceAll channelRegex
       (\<lambda>m caps.
          js ''<span class="text-blue-400 hover:underline cursor-pointer">#'' @ (caps ! 0)
          @ js ''</span>'')
       s\<close>

definition boldStage :: "jsstring \<Rightarrow> jsstring" where
  "boldStage s =
     replaceAll (delimited 42) (\<lambda>m caps. js ''<strong>'' @ (caps ! 0) @ js ''</strong>'') s"

definition emStage :: "jsstring \<Rightarrow> jsstring" where
  "emStage s = replaceAll (delimited 95) (\<lambda>m caps. js ''<em>'' @ (caps ! 0) @ js ''</em>'') s"

definition codeStage :: "jsstring \<Rightarrow> jsstring" where
  \<open>codeStage s =
     replaceAll (delimited 96)
       (\<lambda>m caps.
          js ''<code class="bg-gray-700 px-1 rounded text-white">'' @ (caps ! 0) @ js ''</code>'')
       s\<close>

text \<open>
  Lines 145 to 192. \<^verbatim>\<open>highlightZaniMentions\<close> is imported from \<^verbatim>\<open>@/services/zaniService\<close>,
  which is not among the source files: it is the parameter \<open>highlightZaniMentions\<close>.
\<close>

definition formatMessageContent ::
  "(jsstring \<Rightarrow> jsstring) \<Rightarrow> storage \<Rightarrow> (nat \<Rightarrow> nat) \<Rightarrow> nat \<Rightarrow> jsstring \<Rightarrow> js_error + formatted" where
  "formatMessageContent highlightZaniMentions st draws k content =
     (case extractFiles st draws (execAll filePattern content) content [] k of
        Inl e \<Rightarrow> Inl e
      | Inr (textContent, fs) \<Rightarrow>
          Inr \<lparr>formattedContent =
                 codeStage (emStage (boldStage (channelStage (mentionStage
                   (highlightZaniMentions (urlStage (imageStage textContent))))))),
               files = fs\<rparr>)"

text \<open>
  What two results of \<open>formatMessageContent\<close> are compared on when the sizes that come
  from \<^verbatim>\<open>Math.random\<close> are left aside: \<open>hasStoredSize\<close> tells whether line 236 finds a size
  for the name, and \<open>withoutRandomSizes\<close> blanks the size of every other attachment.
\<close>

definition hasStoredSize :: "storage \<Rightarrow> jsstring \<Rightarrow> bool" where
  "hasStoredSize st fileName =
     (case findEntry st fileName of
        None \<Rightarrow> False
      | Some fileEntry \<Rightarrow> (case entry_size fileEntry of None \<Rightarrow> False | Some n \<Rightarrow> n \<noteq> 0))"

definition blankRandomSize :: "storage \<Rightarrow> attachment \<Rightarrow> attachment" where
  "blankRandomSize st a = (if hasStoredSize st (name a) then a else a\<lparr>size := 0\<rparr>)"

definition withoutRandomSizes :: "storage \<Rightarrow> formatted \<Rightarrow> formatted" where
  "withoutRandomSizes st r = r\<lparr>files := map (blankRandomSize st) (files r)\<rparr>"

section \<open>The assistant's answers: zaniService\<close>

text \<open>
  \<^verbatim>\<open>MessageBubble.tsx\<close> imports \<^verbatim>\<open>containsZaniMention\<close>, \<^verbatim>\<open>extractZaniQuery\<close>,
  \<^verbatim>\<open>processZaniQuery\<close>, \<^verbatim>\<open>isMessageProcessed\<close>, \<^verbatim>\<open>getStoredZaniResponse\<close> and
  \<^verbatim>\<open>storeZaniResponse\<close> from \<^verbatim>\<open>@/services/zaniService\<close>, which is not among the source files.
  The response cache is modelled from the specification. The two detector functions are
  parameters of the model (the record \<open>zaniService\<close>), and so is \<open>queryCalled\<close>: what a call
  of \<^verbatim>\<open>processZaniQuery\<close> for a message id does to the response cache before its caller
  awaits the answer.
\<close>

text \<open>
  Modelled from the spec: the ResponseCache behind \<^verbatim>\<open>getStoredZaniResponse\<close>,
  \<^verbatim>\<open>storeZaniResponse\<close> and \<^verbatim>\<open>isMessageProcessed\<close> of the missing zaniService. It is a
  "persisted mapping from message id to final response text" that "also tracks processed
  status independent of cached text".
\<close>

record responseCache =
  responses :: "jsstring \<rightharpoonup> jsstring"
  processed :: "jsstring set"

text \<open>Modelled from the spec: getStoredZaniResponse of the missing zaniService, "get(messageId) -> string | absent".\<close>

definition getStoredZaniResponse :: "responseCache \<Rightarrow> jsstring \<Rightarrow> jsstring option" where
  "getStoredZaniResponse c messageId = responses c messageId"

text \<open>Modelled from the spec: storeZaniResponse of the missing zaniService, "put(messageId, text) -> void".\<close>

definition storeZaniResponse :: "jsstring \<Rightarrow> jsstring \<Rightarrow> responseCache \<Rightarrow> responseCache" where
  "storeZaniResponse messageId text c = c\<lparr>responses := (responses c)(messageId \<mapsto> text)\<rparr>"

text \<open>
  Modelled from the spec: isMessageProcessed of the missing zaniService,
  "isProcessed(messageId) -> bool independent of whether text is retrievable (covers the
  case a query was dispatched but has not yet resolved)".
\<close>

definition isMessageProcessed :: "responseCache \<Rightarrow> jsstring \<Rightarrow> bool" where
  "isMessageProcessed c messageId = (messageId \<in> processed c)"

text \<open>
  The outcome of the external query service: the promise resolves with a text or rejects.
\<close>

datatype outcome = Resolved jsstring | Rejected

text \<open>
  Modelled from the spec: what a call of processZaniQuery of the missing zaniService does
  to the cache when isProcessed is read as the specification words it: from the call on
  the message counts as processed ("covers the case a query was dispatched but has not
  yet resolved"). The answer itself comes from the external query service
  ("answer(...) -> Promise<string>"), which writes nothing.
\<close>

definition processZaniQuery_called :: "jsstring \<Rightarrow> responseCache \<Rightarrow> responseCache" where
  "processZaniQuery_called messageId c = c\<lparr>processed := insert messageId (processed c)\<rparr>"

record zaniService =
  containsZaniMention :: "jsstring \<Rightarrow> bool"
  extractZaniQuery :: "jsstring \<Rightarrow> jsstring option"
  queryCalled :: "jsstring \<Rightarrow> responseCache \<Rightarrow> responseCache"

section \<open>processZani\<close>

text \<open>The fields of \<^verbatim>\<open>message\<close> that the effect reads (\<^verbatim>\<open>message.id\<close> is \<open>messageId\<close>).\<close>

record message =
  messageId :: jsstring
  channelId :: jsstring
  content :: jsstring

text \<open>
  What the effect of lines 67 to 109 reads and writes: the response cache of zaniService,
  the two pieces of component state \<^verbatim>\<open>isProcessingZani\<close> and \<^verbatim>\<open>zaniResponse\<close> (\<^verbatim>\<open>null\<close> is
  None), and two counters kept for the claims: the calls of \<^verbatim>\<open>processZaniQuery\<close> made so
  far, and those that have not settled yet. \<^verbatim>\<open>setIsProcessingZani\<close> changes the state
  \<open>isProcessingZani\<close>, which the next render will see; the effect is a closure of the
  latest render, and \<open>capturedIsProcessingZani\<close> is the constant that this closure holds
  and line 78 reads.
\<close>

record bubble =
  cache :: responseCache
  isProcessingZani :: bool
  capturedIsProcessingZani :: bool
  zaniResponse :: "jsstring option"
  calls :: nat
  pending :: nat

text \<open>JavaScript's test \<^verbatim>\<open>if (x)\<close> on a value that is a string or \<^verbatim>\<open>null\<close>.\<close>

definition truthy :: "jsstring option \<Rightarrow> bool" where
  "truthy x = (case x of None \<Rightarrow> False | Some s \<Rightarrow> s \<noteq> [])"

text \<open>Line 97.\<close>

definition errorResponse :: jsstring where
  "errorResponse = js ''Sorry, I encountered an error processing your request.''"

text \<open>
  \<^verbatim>\<open>processZani\<close> from its start to the \<^verbatim>\<open>await\<close> of line 85 (lines 69 to 91): one invocation
  of the effect. The channel's messages of line 84 are handed to the query and play no
  part here.
\<close>

definition processZani :: "zaniService \<Rightarrow> message \<Rightarrow> bubble \<Rightarrow> bubble" where
  "processZani svc message b =
     (if content message \<noteq> [] \<and> containsZaniMention svc (content message) then
        (let storedResponse = getStoredZaniResponse (cache b) (messageId message)
         in if truthy storedResponse then b\<lparr>zaniResponse := storedResponse\<rparr>
            else if \<not> isMessageProcessed (cache b) (messageId message)
                    \<and> \<not> capturedIsProcessingZani b then
              (let query = extractZaniQuery svc (content message)
               in if truthy query then
                    b\<lparr>cache := queryCalled svc (messageId message) (cache b),
                      isProcessingZani := True,
                      calls := Suc (calls b),
                      pending := Suc (pending b)\<rparr>
                  else b)
            else b)
      else b)"

text \<open>
  \<^verbatim>\<open>processZani\<close> from the \<^verbatim>\<open>await\<close> on (lines 92 to 102), once the query has settled with
  the outcome \<open>out\<close>. Only the \<^verbatim>\<open>catch\<close> block calls \<^verbatim>\<open>storeZaniResponse\<close>.
\<close>

definition processZani_settled :: "message \<Rightarrow> outcome \<Rightarrow> bubble \<Rightarrow> bubble" where
  "processZani_settled message out b =
     (case out of
        Resolved response \<Rightarrow>
          (let b' = b\<lparr>pending := pending b - 1\<rparr>
           in (if response \<noteq> [] then b'\<lparr>zaniResponse := Some response\<rparr> else b')
                \<lparr>isProcessingZani := False\<rparr>)
      | Rejected \<Rightarrow>
          b\<lparr>cache := storeZaniResponse (messageId message) errorResponse (cache b),
            zaniResponse := Some errorResponse,
            isProcessingZani := False,
            pending := pending b - 1\<rparr>)"

text \<open>A render of the component: the closure of the effect is made anew.\<close>

definition render :: "bubble \<Rightarrow> bubble" where
  "render b = b\<lparr>capturedIsProcessingZani := isProcessingZani b\<rparr>"

text \<open>
  Interleavings: the effect of the latest render is invoked (the same closure may be
  invoked more than once), the query that is awaited settles, or the component renders.
  JavaScript runs each half of \<open>processZani\<close> without interruption; a query can only
  settle when one is pending.
\<close>

datatype event = Invoke | Settle outcome | Render

fun step :: "zaniService \<Rightarrow> message \<Rightarrow> bubble \<Rightarrow> event \<Rightarrow> bubble" where
  "step svc message b Invoke = processZani svc message b"
| "step svc message b (Settle out) =
     (if pending b = 0 then b else processZani_settled message out b)"
| "step svc message b Render = render b"

definition run :: "zaniService \<Rightarrow> message \<Rightarrow> bubble \<Rightarrow> event list \<Rightarrow> bubble" where
  "run svc message b evs = foldl (step svc message) b evs"

text \<open>The invocation of the effect in the state \<open>b\<close> calls the query service.\<close>

definition dispatches :: "zaniService \<Rightarrow> message \<Rightarrow> bubble \<Rightarrow> bool" where
  "dispatches svc message b = (calls (processZani svc message b) = Suc (calls b))"

text \<open>
  The state of a message whose query has been called: \<open>c\<close> calls were made, at most one
  of them is pending, and the cache counts the message as processed.
\<close>

definition dispatched :: "message \<Rightarrow> nat \<Rightarrow> bubble \<Rightarrow> bool" where
  "dispatched m c b = (calls b = c \<and> pending b \<le> 1 \<and> isMessageProcessed (cache b) (messageId m))"

text \<open>
  Inputs of the closed examples below: a detector that takes a content starting with
  \<^verbatim>\<open>@zani\<close> for a mention and what follows the token and a space for the query, once with a
  query whose call marks the message as processed (\<open>sampleService\<close>) and once with a query
  whose call leaves the cache alone (\<open>silentService\<close>); the message \<^verbatim>\<open>@zani hello\<close>; a
  component that has just been mounted, over an empty cache.
\<close>

definition sampleService :: zaniService where
  "sampleService =
     \<lparr>containsZaniMention = startsWith (js ''@zani''), extractZaniQuery = Some \<circ> drop 6,
      queryCalled = processZaniQuery_called\<rparr>"


definition sampleMessage :: message where
  "sampleMessage = \<lparr>messageId = js ''m1'', channelId = js ''general'', content = js ''@zani hello''\<rparr>"

definition mountedBubble :: bubble where
  "mountedBubble =
     \<lparr>cache = \<lparr>responses = Map.empty, processed = {}\<rparr>, isProcessingZani = False,
      capturedIsProcessingZani = False, zaniResponse = None, calls = 0, pending = 0\<rparr>"

definition answeredBubble :: bubble where
  "answeredBubble =
     mountedBubble\<lparr>cache := \<lparr>responses = [js ''m1'' \<mapsto> js ''42''], processed = {js ''m1''}\<rparr>\<rparr>"

section \<open>What a match is\<close>

text \<open>
  Every match of the six expressions is a non-empty start of the text it is tried on and
  carries as many captures as the expression has groups; so \<open>replaceAll\<close> and \<open>execAll\<close>
  go on behind the match, and \<^verbatim>\<open>match[1]\<close>, \<^verbatim>\<open>$1\<close> and the \<^verbatim>\<open>url\<close> of line 169 are defined.
\<close>

lemma lazyDot_Some:
  "lazyDot k acc s = Some r \<Longrightarrow> \<exists>p t. s = p @ t \<and> k (acc @ p) t = Some r"
proof (induction s arbitrary: acc)
  case Nil
  then show ?case by simp
next
  case (Cons c cs)
  show ?case
  proof (cases "k acc (c # cs)")
    case (Some r')
    then have "k (acc @ []) (c # cs) = Some r" using Cons.prems by simp
    then show ?thesis by (metis append_Nil)
  next
    case None
    then have "lazyDot k (acc @ [c]) cs = Some r"
      using Cons.prems by (simp split: if_splits)
    then obtain p t where "cs = p @ t" and "k ((acc @ [c]) @ p) t = Some r"
      using Cons.IH by blast
    then have "c # cs = (c # p) @ t \<and> k (acc @ c # p) t = Some r" by simp
    then show ?thesis by blast
  qed
qed

lemma filePattern_match:
  assumes "filePattern s = Some (m, caps)"
  shows "m \<noteq> [] \<and> length caps = 1 \<and> startsWith m s"
proof -
  define K :: "jsstring \<Rightarrow> jsstring \<Rightarrow> (jsstring \<times> jsstring list) option"
    where "K = (\<lambda>cap rest.
                  case rest of
                    [] \<Rightarrow> Some (paperclip @ [32] @ cap, [cap])
                  | d # _ \<Rightarrow> if d = 10 then Some (paperclip @ [32] @ cap @ [10], [cap]) else None)"
  have fp: "filePattern s =
     (if startsWith (paperclip @ [32]) s then
        (case drop 3 s of
           [] \<Rightarrow> None
         | c # cs \<Rightarrow> if isLineTerminator c then None else lazyDot K [c] cs)
      else None)"
    unfolding K_def filePattern_def ..
  from assms obtain c cs where pre: "startsWith (paperclip @ [32]) s" and d: "drop 3 s = c # cs"
    and l: "lazyDot K [c] cs = Some (m, caps)"
    unfolding fp by (auto split: if_splits list.splits)
  from lazyDot_Some[OF l] obtain p t where cs: "cs = p @ t" and k: "K ([c] @ p) t = Some (m, caps)"
    by blast
  have "s = take 3 s @ drop 3 s" by simp
  moreover have "take 3 s = paperclip @ [32]"
    using pre by (simp add: startsWith_def paperclip_def numeral_3_eq_3)
  ultimately have s: "s = paperclip @ [32] @ c # p @ t" using d cs by simp
  from k obtain xs where "m = paperclip @ [32] @ c # p \<and> t = [] \<or> m = paperclip @ [32] @ c # p @ [10] \<and> t = 10 # xs"
    and c: "caps = [c # p]"
    unfolding K_def by (auto split: list.splits if_splits)
  then have "\<exists>r. s = m @ r \<and> m \<noteq> []" using s by (auto simp: paperclip_def)
  then have "startsWith m s \<and> m \<noteq> []" by (metis append_eq_conv_conj startsWith_def)
  then show ?thesis using c by simp
qed

lemma imageRegex_match:
  assumes "imageRegex s = Some (m, caps)"
  shows "m \<noteq> [] \<and> length caps = 2 \<and> startsWith m s"
proof -
  define K2 :: "jsstring \<Rightarrow> jsstring \<Rightarrow> jsstring \<Rightarrow> (jsstring \<times> jsstring list) option"
    where "K2 = (\<lambda>alt url rest'.
                    case rest' of
                      [] \<Rightarrow> None
                    | d # _ \<Rightarrow>
                        if d = 41 then Some (js ''!['' @ alt @ js '']('' @ url @ [41], [alt, url])
                        else None)"
  define K1 :: "jsstring \<Rightarrow> jsstring \<Rightarrow> (jsstring \<times> jsstring list) option"
    where "K1 = (\<lambda>alt rest.
             if startsWith (js '']('') rest then lazyDot (K2 alt) [] (drop 2 rest) else None)"
  have ir: "imageRegex s = (if startsWith (js ''!['') s then lazyDot K1 [] (drop 2 s) else None)"
    unfolding K1_def K2_def imageRegex_def ..
  from assms have pre: "startsWith (js ''!['') s" and l: "lazyDot K1 [] (drop 2 s) = Some (m, caps)"
    unfolding ir by (auto split: if_splits)
  from lazyDot_Some[OF l] obtain alt t where s1: "drop 2 s = alt @ t" and k1: "K1 alt t = Some (m, caps)"
    by auto
  from k1 have pre2: "startsWith (js '']('') t" and l2: "lazyDot (K2 alt) [] (drop 2 t) = Some (m, caps)"
    unfolding K1_def by (auto split: if_splits)
  from lazyDot_Some[OF l2] obtain ur t' where s2: "drop 2 t = ur @ t'" and k2: "K2 alt ur t' = Some (m, caps)"
    by auto
  from k2 obtain xs where t': "t' = 41 # xs" and m: "m = js ''!['' @ alt @ js '']('' @ ur @ [41]"
    and c: "caps = [alt, ur]"
    unfolding K2_def by (auto split: list.splits if_splits)
  have "s = take 2 s @ drop 2 s" by simp
  moreover have "take 2 s = js ''![''" using pre by (simp add: startsWith_def js_def numeral_2_eq_2)
  moreover have "t = take 2 t @ drop 2 t" by simp
  moreover have "take 2 t = js ''](''" using pre2 by (simp add: startsWith_def js_def numeral_2_eq_2)
  ultimately have "s = js ''!['' @ alt @ js '']('' @ ur @ 41 # xs" using s1 s2 t' by metis
  then have "s = m @ xs" using m by simp
  then have "startsWith m s" by (metis append_eq_conv_conj startsWith_def)
  then show ?thesis using m c by (simp add: js_def)
qed

lemma urlRegex_match:
  assumes "urlRegex s = Some (m, caps)"
  shows "m \<noteq> [] \<and> length caps = 1 \<and> startsWith m s"
proof -
  have a: "m \<noteq> [] \<and> length caps = 1 \<and> startsWith m s" if "urlAfter scheme s = Some (m, caps)" for scheme
  proof -
    let ?run = "takeWhile (\<lambda>c. \<not> isWhiteSpace c) (drop (length scheme) s)"
    from that have pre: "take (length scheme) s = scheme" and ne: "?run \<noteq> []"
      and m: "m = scheme @ ?run" and c: "caps = [scheme @ ?run]"
      by (auto simp: urlAfter_def startsWith_def Let_def split: if_splits)
    have "s = take (length scheme) s @ drop (length scheme) s" by simp
    also have "\<dots> = scheme @ ?run @ dropWhile (\<lambda>c. \<not> isWhiteSpace c) (drop (length scheme) s)"
      using pre by simp
    finally have "s = m @ dropWhile (\<lambda>c. \<not> isWhiteSpace c) (drop (length scheme) s)"
      using m by simp
    then have "startsWith m s" by (metis append_eq_conv_conj startsWith_def)
    then show ?thesis using ne m c by simp
  qed
  from assms have "urlAfter (js ''https://'') s = Some (m, caps)
      \<or> urlAfter (js ''http://'') s = Some (m, caps)"
    by (auto simp: urlRegex_def split: option.splits)
  then show ?thesis using a by blast
qed

lemma lookaheadFrom_bound: "lookaheadFrom n cs = Some k \<Longrightarrow> 0 < k \<and> k \<le> n"
  by (induction n) (auto split: if_splits)

lemma mentionRegex_match:
  assumes "mentionRegex s = Some (m, caps)"
  shows "m \<noteq> [] \<and> length caps = 1 \<and> startsWith m s"
proof -
  from assms obtain cs n where s: "s = 64 # cs"
    and n: "lookaheadFrom (length (takeWhile isWordChar cs)) cs = Some n"
    and m: "m = 64 # take n cs" and c: "caps = [take n cs]"
    by (auto simp: mentionRegex_def split: list.splits if_splits option.splits)
  have "n \<le> length (takeWhile isWordChar cs)" using lookaheadFrom_bound[OF n] by simp
  also have "\<dots> \<le> length cs" by (rule length_takeWhile_le)
  finally have "length m = Suc n" using m by simp
  then have "startsWith m s" using s m by (simp add: startsWith_def)
  then show ?thesis using m c by simp
qed

lemma channelRegex_match:
  assumes "channelRegex s = Some (m, caps)"
  shows "m \<noteq> [] \<and> length caps = 1 \<and> startsWith m s"
proof -
  from assms obtain cs where s: "s = 35 # cs" and m: "m = 35 # takeWhile isWordChar cs"
    and c: "caps = [takeWhile isWordChar cs]"
    by (auto simp: channelRegex_def Let_def split: list.splits if_splits)
  have "s = m @ dropWhile isWordChar cs" using s m by simp
  then have "startsWith m s" by (metis append_eq_conv_conj startsWith_def)
  then show ?thesis using m c by simp
qed

lemma delimited_match:
  assumes "delimited d s = Some (m, caps)"
  shows "m \<noteq> [] \<and> length caps = 1 \<and> startsWith m s"
proof -
  let ?P = "\<lambda>x. x \<noteq> d"
  from assms obtain cs where s: "s = d # cs" and m: "m = d # takeWhile ?P cs @ [d]"
    and c: "caps = [takeWhile ?P cs]"
    and f: "startsWith [d] (drop (length (takeWhile ?P cs)) cs)"
    by (auto simp: delimited_def Let_def split: list.splits if_splits)
  from f have "take 1 (dropWhile ?P cs) = [d]"
    by (simp add: startsWith_def dropWhile_eq_drop)
  then obtain xs where "dropWhile ?P cs = d # xs"
    by (cases "dropWhile ?P cs") auto
  then have "cs = takeWhile ?P cs @ d # xs" by (metis takeWhile_dropWhile_id)
  then have "s = m @ xs" using s m by simp
  then have "startsWith m s" by (metis append_eq_conv_conj startsWith_def)
  then show ?thesis using m c by simp
qed


section \<open>Evaluating the replacements\<close>

text \<open>
  Rewrite rules that walk along a string one code unit at a time: a code unit that cannot
  start a match is passed over, and the defining equation is used only where a match may
  start.
\<close>

lemma takeWhile_keep: "P x \<Longrightarrow> takeWhile P (x # xs) = x # takeWhile P xs"
  by simp

lemma takeWhile_stop: "\<not> P x \<Longrightarrow> takeWhile P (x # xs) = []"
  by simp

lemma dropWhile_drop: "P x \<Longrightarrow> dropWhile P (x # xs) = dropWhile P xs"
  by simp

lemma dropWhile_stop: "\<not> P x \<Longrightarrow> dropWhile P (x # xs) = x # xs"
  by simp

lemma delimited_other: "c \<noteq> d \<Longrightarrow> replaceAll (delimited d) f (c # cs) = c # replaceAll (delimited d) f cs"
  by (simp add: delimited_def)

lemma delimited_Nil: "replaceAll (delimited d) f [] = []"
  by (simp add: delimited_def)

lemma mentionRegex_other: "c \<noteq> 64 \<Longrightarrow> replaceAll mentionRegex f (c # cs) = c # replaceAll mentionRegex f cs"
  by (simp add: mentionRegex_def)

lemma mentionRegex_Nil: "replaceAll mentionRegex f [] = []"
  by (simp add: mentionRegex_def)

lemma channelRegex_other: "c \<noteq> 35 \<Longrightarrow> replaceAll channelRegex f (c # cs) = c # replaceAll channelRegex f cs"
  by (simp add: channelRegex_def)

lemma channelRegex_Nil: "replaceAll channelRegex f [] = []"
  by (simp add: channelRegex_def)

lemma urlRegex_other: "c \<noteq> 104 \<Longrightarrow> replaceAll urlRegex f (c # cs) = c # replaceAll urlRegex f cs"
  by (simp add: urlRegex_def urlAfter_def startsWith_def js_def)

lemma urlRegex_Nil: "replaceAll urlRegex f [] = []"
  by (simp add: urlRegex_def urlAfter_def startsWith_def js_def)

lemma imageRegex_other: "c \<noteq> 33 \<Longrightarrow> replaceAll imageRegex f (c # cs) = c # replaceAll imageRegex f cs"
  by (simp add: imageRegex_def startsWith_def js_def)

lemma imageRegex_Nil: "replaceAll imageRegex f [] = []"
  by (simp add: imageRegex_def startsWith_def js_def)

lemma filePattern_other: "c \<noteq> 55357 \<Longrightarrow> execAll filePattern (c # cs) = execAll filePattern cs"
  by (simp add: filePattern_def startsWith_def paperclip_def)

lemmas at_first_unit =
  replaceAll.simps(2)[where re = "delimited d" and c = d for d]
  replaceAll.simps(2)[where re = mentionRegex and c = 64]
  replaceAll.simps(2)[where re = channelRegex and c = 35]
  replaceAll.simps(2)[where re = urlRegex and c = 104]
  replaceAll.simps(2)[where re = imageRegex and c = 33]
  execAll.simps(2)[where re = filePattern and c = 55357]

lemmas walk =
  takeWhile_keep takeWhile_stop dropWhile_drop dropWhile_stop
  delimited_other delimited_Nil mentionRegex_other mentionRegex_Nil channelRegex_other
  channelRegex_Nil urlRegex_other urlRegex_Nil imageRegex_other imageRegex_Nil
  filePattern_other at_first_unit

lemmas unfolded =
  js_def paperclip_def isLineTerminator_def isWhiteSpace_def isWordChar_def startsWith_def
  trim_def toLowerCase_def lastSegment_def filePattern_def imageRegex_def urlAfter_def
  urlRegex_def mentionRegex_def channelRegex_def delimited_def Let_def

lemmas stages =
  imageStage_def urlStage_def mentionStage_def channelStage_def boldStage_def emStage_def
  codeStage_def

lemmas slow_steps = replaceAll.simps(2) execAll.simps(2) takeWhile.simps(2) dropWhile.simps(2)

section \<open>Facts about processZani\<close>

lemmas cache_defs = getStoredZaniResponse_def storeZaniResponse_def isMessageProcessed_def
  processZaniQuery_called_def

lemma dispatches_iff:
  "dispatches svc m b \<longleftrightarrow>
     content m \<noteq> [] \<and> containsZaniMention svc (content m)
     \<and> \<not> truthy (getStoredZaniResponse (cache b) (messageId m))
     \<and> \<not> isMessageProcessed (cache b) (messageId m) \<and> \<not> capturedIsProcessingZani b
     \<and> truthy (extractZaniQuery svc (content m))"
  by (auto simp: dispatches_def processZani_def Let_def)

lemma processZani_dispatch:
  "dispatches svc m b \<Longrightarrow>
   processZani svc m b =
     b\<lparr>cache := queryCalled svc (messageId m) (cache b), isProcessingZani := True,
       calls := Suc (calls b), pending := Suc (pending b)\<rparr>"
  by (simp add: dispatches_iff processZani_def Let_def)

lemma processZani_stored:
  "content m \<noteq> [] \<Longrightarrow> containsZaniMention svc (content m) \<Longrightarrow>
   truthy (getStoredZaniResponse (cache b) (messageId m)) \<Longrightarrow>
   processZani svc m b = b\<lparr>zaniResponse := getStoredZaniResponse (cache b) (messageId m)\<rparr>"
  by (simp add: processZani_def Let_def)

lemma funpow_stored:
  assumes "content m \<noteq> []" and "containsZaniMention svc (content m)"
    and "getStoredZaniResponse (cache b) (messageId m) = Some text" and "text \<noteq> []"
    and "zaniResponse b = Some text"
  shows "(processZani svc m ^^ n) b = b"
proof (induction n)
  case 0
  show ?case by simp
next
  case (Suc n)
  have "processZani svc m b = b\<lparr>zaniResponse := Some text\<rparr>"
    using assms(1-4) by (simp add: processZani_stored truthy_def)
  also have "\<dots> = b" using assms(5) by simp
  finally show ?case using Suc by simp
qed

lemma funpow_Suc_stored:
  assumes "content m \<noteq> []" and "containsZaniMention svc (content m)"
    and "getStoredZaniResponse (cache b) (messageId m) = Some text" and "text \<noteq> []"
  shows "(processZani svc m ^^ Suc n) b = b\<lparr>zaniResponse := Some text\<rparr>"
proof -
  have first: "processZani svc m b = b\<lparr>zaniResponse := Some text\<rparr>"
    using assms by (simp add: processZani_stored truthy_def)
  have "(processZani svc m ^^ Suc n) b = (processZani svc m ^^ n) (processZani svc m b)"
    by (simp add: funpow_swap1)
  also have "\<dots> = (processZani svc m ^^ n) (b\<lparr>zaniResponse := Some text\<rparr>)"
    by (simp add: first)
  also have "\<dots> = b\<lparr>zaniResponse := Some text\<rparr>"
    by (rule funpow_stored[OF assms(1,2) _ assms(4)]) (simp_all add: assms(3))
  finally show ?thesis .
qed

lemma processZani_dispatched:
  assumes "dispatched m c b"
  shows "dispatched m c (processZani svc m b)"
proof -
  have "processZani svc m b = b \<or> processZani svc m b = b\<lparr>zaniResponse := getStoredZaniResponse (cache b) (messageId m)\<rparr>"
    using assms by (simp add: dispatched_def processZani_def Let_def)
  then show ?thesis using assms by (auto simp: dispatched_def)
qed

lemma settled_dispatched:
  assumes "dispatched m c b"
  shows "dispatched m c (processZani_settled m out b)"
  using assms
  by (cases out) (simp_all add: dispatched_def processZani_settled_def cache_defs Let_def)

lemma render_dispatched: "dispatched m c b \<Longrightarrow> dispatched m c (render b)"
  by (simp add: dispatched_def render_def)

lemma step_dispatched: "dispatched m c b \<Longrightarrow> dispatched m c (step svc m b ev)"
  by (cases ev) (simp_all add: processZani_dispatched settled_dispatched render_dispatched)

lemma run_dispatched: "dispatched m c b \<Longrightarrow> dispatched m c (run svc m b evs)"
  unfolding run_def by (induction evs arbitrary: b) (simp_all add: step_dispatched)

lemma dispatch_dispatched:
  assumes "dispatches svc m b" and "pending b = 0"
    and "isMessageProcessed (queryCalled svc (messageId m) (cache b)) (messageId m)"
  shows "dispatched m (Suc (calls b)) (processZani svc m b)"
  using assms by (simp add: processZani_dispatch dispatched_def)

lemma run_Cons: "run svc m b (ev # evs) = run svc m (step svc m b ev) evs"
  by (simp add: run_def)

lemma run_idle:
  assumes "dispatches svc m b" and "\<not> isProcessingZani b" and "pending b = 0"
    and "isMessageProcessed (queryCalled svc (messageId m) (cache b)) (messageId m)"
  shows "pending (run svc m b evs) \<le> 1
       \<and> calls (run svc m b evs) = (if Invoke \<in> set evs then Suc (calls b) else calls b)"
proof (induction evs)
  case Nil
  show ?case using assms(3) by (simp add: run_def)
next
  case (Cons ev evs)
  show ?case
  proof (cases ev)
    case Invoke
    have "dispatched m (Suc (calls b)) (run svc m (processZani svc m b) evs)"
      using assms(1,3,4) by (intro run_dispatched dispatch_dispatched)
    then show ?thesis using Invoke by (simp add: run_Cons dispatched_def)
  next
    case (Settle out)
    then have "run svc m b (ev # evs) = run svc m b evs"
      using assms(3) by (simp add: run_Cons)
    then show ?thesis using Cons Settle by simp
  next
    case Render
    have "render b = b"
      using assms(1,2) by (simp add: render_def dispatches_iff)
    then have "run svc m b (ev # evs) = run svc m b evs"
      using Render by (simp add: run_Cons)
    then show ?thesis using Cons Render by simp
  qed
qed

lemma sample_dispatches: "dispatches sampleService sampleMessage mountedBubble"
  by (simp add: dispatches_iff sampleService_def sampleMessage_def mountedBubble_def cache_defs
      truthy_def startsWith_def js_def)


section \<open>Facts about formatMessageContent\<close>

lemma lookahead_never_refuses:
  "lookaheadFrom (length (takeWhile isWordChar cs)) cs =
     (if takeWhile isWordChar cs = [] then None else Some (length (takeWhile isWordChar cs)))"
proof (cases "length (takeWhile isWordChar cs)")
  case 0
  then show ?thesis by simp
next
  case (Suc n)
  have d: "drop (length (takeWhile isWordChar cs)) cs = dropWhile isWordChar cs"
    by (simp add: dropWhile_eq_drop)
  have "\<not> startsWith (js ''zani'') (dropWhile isWordChar cs)"
  proof (cases "dropWhile isWordChar cs")
    case Nil
    show ?thesis unfolding Nil by (simp add: startsWith_def js_def)
  next
    case (Cons x xs)
    then have "\<not> isWordChar x" by (metis hd_dropWhile list.sel(1) list.distinct(1))
    then have "x \<noteq> 122" by (auto simp: isWordChar_def)
    then show ?thesis unfolding Cons by (simp add: startsWith_def js_def)
  qed
  then show ?thesis using Suc d by (metis lookaheadFrom.simps(2) length_0_conv nat.distinct(1))
qed


lemma mentionRegex_ignores_lookahead:
  "mentionRegex (64 # cs) =
     (if takeWhile isWordChar cs = [] then None
      else Some (64 # takeWhile isWordChar cs, [takeWhile isWordChar cs]))"
  by (simp add: mentionRegex_def lookahead_never_refuses takeWhile_eq_take[symmetric])

lemma blank_drawn_size:
  "blankRandomSize st \<lparr>name = n, type = t, url = u, size = fst (getFileSize st d1 k1 n)\<rparr>
     = blankRandomSize st \<lparr>name = n, type = t, url = u, size = fst (getFileSize st d2 k2 n)\<rparr>"
  by (simp add: blankRandomSize_def hasStoredSize_def getFileSize_def split: option.splits)

lemma extractFiles_draws:
  assumes "map (blankRandomSize st) fs1 = map (blankRandomSize st) fs2"
  shows "map_sum id (map_prod id (map (blankRandomSize st))) (extractFiles st d1 ms t fs1 k1)
       = map_sum id (map_prod id (map (blankRandomSize st))) (extractFiles st d2 ms t fs2 k2)"
  using assms
proof (induction ms arbitrary: t fs1 fs2 k1 k2)
  case Nil
  then show ?case by simp
next
  case (Cons mc ms)
  obtain m caps where mc: "mc = (m, caps)" by (cases mc)
  show ?case
  proof (cases "getActualFileUrl st (trim (hd caps))")
    case (Inl e)
    then show ?thesis by (simp add: mc)
  next
    case (Inr u)
    let ?n = "trim (hd caps)"
    let ?a1 = "\<lparr>name = ?n, type = getFileType ?n, url = u, size = fst (getFileSize st d1 k1 ?n)\<rparr>"
    let ?a2 = "\<lparr>name = ?n, type = getFileType ?n, url = u, size = fst (getFileSize st d2 k2 ?n)\<rparr>"
    have "map (blankRandomSize st) (fs1 @ [?a1]) = map (blankRandomSize st) (fs2 @ [?a2])"
      using Cons.prems blank_drawn_size[of st ?n "getFileType ?n" u d1 k1 d2 k2] by simp
    then have ih: "map_sum id (map_prod id (map (blankRandomSize st)))
                 (extractFiles st d1 ms (trim (removeFirst m t)) (fs1 @ [?a1]) (snd (getFileSize st d1 k1 ?n)))
             = map_sum id (map_prod id (map (blankRandomSize st)))
                 (extractFiles st d2 ms (trim (removeFirst m t)) (fs2 @ [?a2]) (snd (getFileSize st d2 k2 ?n)))"
      by (rule Cons.IH)
    have s1: "extractFiles st d1 (mc # ms) t fs1 k1
            = extractFiles st d1 ms (trim (removeFirst m t)) (fs1 @ [?a1]) (snd (getFileSize st d1 k1 ?n))"
      using Inr by (simp add: mc Let_def split_beta)
    have s2: "extractFiles st d2 (mc # ms) t fs2 k2
            = extractFiles st d2 ms (trim (removeFirst m t)) (fs2 @ [?a2]) (snd (getFileSize st d2 k2 ?n))"
      using Inr by (simp add: mc Let_def split_beta)
    show ?thesis unfolding s1 s2 by (rule ih)
  qed
qed

lemma report_url: "\<exists>u. getActualFileUrl st (js ''report.pdf'') = Inr u"
  by (simp add: getActualFileUrl_def fallbackUrl_def btoa_def unfolded split: option.splits)

section \<open>The claims\<close>

text \<open>
  C1. For every message id, across any interleaving of repeated invocations of the effect
  \<open>processZani\<close> for the same unanswered mention message, at most one call of the query
  service is outstanding at any time, and firing the effect N times for that message
  results in exactly one call of the query service. The interleaving is any list of
  invocations, settlements and renders, so the bound on \<open>pending\<close> holds after each of
  its prefixes; the message is unanswered when an invocation in the first state
  dispatches. The call of the query marks the message as processed, as the specification
  reads isProcessed.
\<close>

theorem at_most_one_dispatch:
  assumes "dispatches svc m b" and "\<not> isProcessingZani b" and "pending b = 0" and "calls b = 0"
    and "isMessageProcessed (queryCalled svc (messageId m) (cache b)) (messageId m)"
  shows "pending (run svc m b evs) \<le> 1
       \<and> calls (run svc m b evs) = (if Invoke \<in> set evs then 1 else 0)"
  using run_idle[OF assms(1,2,3,5), of evs] assms(4) by simp

theorem at_most_one_dispatch_witness:
  "dispatches sampleService sampleMessage mountedBubble
   \<and> \<not> isProcessingZani mountedBubble
   \<and> pending mountedBubble = 0 \<and> calls mountedBubble = 0
   \<and> isMessageProcessed
        (queryCalled sampleService (messageId sampleMessage) (cache mountedBubble))
        (messageId sampleMessage)
   \<and> pending (run sampleService sampleMessage mountedBubble
                [Invoke, Invoke, Render, Invoke, Settle (Resolved (js ''hi'')), Render, Invoke, Invoke])
        \<le> 1
   \<and> calls (run sampleService sampleMessage mountedBubble
              [Invoke, Invoke, Render, Invoke, Settle (Resolved (js ''hi'')), Render, Invoke, Invoke])
        = 1"
proof -
  have f: "\<not> isProcessingZani mountedBubble"
    and p: "pending mountedBubble = 0" and c: "calls mountedBubble = 0"
    by (simp_all add: mountedBubble_def)
  have q: "isMessageProcessed
             (queryCalled sampleService (messageId sampleMessage) (cache mountedBubble))
             (messageId sampleMessage)"
    by (simp add: sampleService_def cache_defs)
  show ?thesis
    using sample_dispatches f p c q
      at_most_one_dispatch[OF sample_dispatches f p c q,
        of "[Invoke, Invoke, Render, Invoke, Settle (Resolved (js ''hi'')), Render, Invoke, Invoke]"]
    by simp
qed

text \<open>
  C2. For every message already answered (a response text is retrievable from the cache
  for its id, by the test of line 72), invoking the effect again never calls the query
  service and exposes the same cached text on both invocations.
\<close>

theorem answered_is_idempotent:
  assumes "content m \<noteq> []" and "containsZaniMention svc (content m)"
    and "getStoredZaniResponse (cache b) (messageId m) = Some text" and "text \<noteq> []"
  shows "processZani svc m b = b\<lparr>zaniResponse := Some text\<rparr>
       \<and> processZani svc m (processZani svc m b) = b\<lparr>zaniResponse := Some text\<rparr>
       \<and> calls (processZani svc m (processZani svc m b)) = calls b
       \<and> pending (processZani svc m (processZani svc m b)) = pending b"
proof -
  have one: "processZani svc m b' = b'\<lparr>zaniResponse := Some text\<rparr>"
    if "getStoredZaniResponse (cache b') (messageId m) = Some text" for b'
    using assms(1,2,4) that by (simp add: processZani_def truthy_def)
  have "processZani svc m b = b\<lparr>zaniResponse := Some text\<rparr>"
    using assms(3) by (rule one)
  moreover have "processZani svc m (b\<lparr>zaniResponse := Some text\<rparr>) = b\<lparr>zaniResponse := Some text\<rparr>"
    using one[of "b\<lparr>zaniResponse := Some text\<rparr>"] assms(3) by simp
  ultimately show ?thesis by simp
qed

theorem answered_is_idempotent_witness:
  "content sampleMessage \<noteq> [] \<and> containsZaniMention sampleService (content sampleMessage)
   \<and> getStoredZaniResponse (cache answeredBubble) (messageId sampleMessage) = Some (js ''42'')
   \<and> js ''42'' \<noteq> []
   \<and> processZani sampleService sampleMessage answeredBubble
       = answeredBubble\<lparr>zaniResponse := Some (js ''42'')\<rparr>
   \<and> processZani sampleService sampleMessage (processZani sampleService sampleMessage answeredBubble)
       = answeredBubble\<lparr>zaniResponse := Some (js ''42'')\<rparr>
   \<and> calls (processZani sampleService sampleMessage
         (processZani sampleService sampleMessage answeredBubble)) = calls answeredBubble
   \<and> pending (processZani sampleService sampleMessage
         (processZani sampleService sampleMessage answeredBubble)) = pending answeredBubble"
proof -
  have 1: "content sampleMessage \<noteq> []"
    and 2: "containsZaniMention sampleService (content sampleMessage)"
    and 3: "getStoredZaniResponse (cache answeredBubble) (messageId sampleMessage) = Some (js ''42'')"
    and 4: "js ''42'' \<noteq> []"
    by (simp_all add: sampleService_def sampleMessage_def answeredBubble_def mountedBubble_def
        cache_defs startsWith_def js_def)
  show ?thesis
    using 1 2 3 4 answered_is_idempotent[OF 1 2 3 4] by blast
qed

text \<open>
  C3. If the query service rejects for the message M, the effect writes the fixed sentinel
  \<open>errorResponse\<close> to the cache under M's id and clears \<open>isProcessingZani\<close>; every later
  invocation of the effect for M exposes the sentinel without calling the query service
  again. The later invocations start from any state of the component over the cache that
  the rejection has left (after a render, a remount or a reload as well), so it is the
  look-up of lines 71 to 75 that exposes the sentinel.
\<close>

theorem failure_is_permanent:
  assumes "dispatches svc m b"
  shows "getStoredZaniResponse (cache (processZani_settled m Rejected (processZani svc m b))) (messageId m)
           = Some errorResponse
       \<and> \<not> isProcessingZani (processZani_settled m Rejected (processZani svc m b))
       \<and> zaniResponse (processZani_settled m Rejected (processZani svc m b)) = Some errorResponse
       \<and> calls (processZani_settled m Rejected (processZani svc m b)) = Suc (calls b)
       \<and> (\<forall>b' n.
             zaniResponse
               ((processZani svc m ^^ Suc n)
                  (b'\<lparr>cache := cache (processZani_settled m Rejected (processZani svc m b))\<rparr>))
               = Some errorResponse
           \<and> calls
               ((processZani svc m ^^ Suc n)
                  (b'\<lparr>cache := cache (processZani_settled m Rejected (processZani svc m b))\<rparr>))
               = calls b'
           \<and> pending
               ((processZani svc m ^^ Suc n)
                  (b'\<lparr>cache := cache (processZani_settled m Rejected (processZani svc m b))\<rparr>))
               = pending b')"
proof -
  define b1 where "b1 = processZani_settled m Rejected (processZani svc m b)"
  have m: "content m \<noteq> []" "containsZaniMention svc (content m)"
    using assms by (simp_all add: dispatches_iff)
  have ne: "errorResponse \<noteq> []" by (simp add: errorResponse_def js_def)
  have st: "getStoredZaniResponse (cache b1) (messageId m) = Some errorResponse"
    by (simp add: b1_def processZani_settled_def cache_defs)
  have fl: "\<not> isProcessingZani b1" and zr: "zaniResponse b1 = Some errorResponse"
    by (simp_all add: b1_def processZani_settled_def)
  have ca: "calls b1 = Suc (calls b)"
    using assms by (simp add: b1_def processZani_settled_def processZani_dispatch)
  have later: "(processZani svc m ^^ Suc n) (b'\<lparr>cache := cache b1\<rparr>)
                 = b'\<lparr>cache := cache b1, zaniResponse := Some errorResponse\<rparr>" for b' n
  proof -
    have "getStoredZaniResponse (cache (b'\<lparr>cache := cache b1\<rparr>)) (messageId m) = Some errorResponse"
      using st by simp
    from funpow_Suc_stored[OF m this ne] show ?thesis by simp
  qed
  show ?thesis
    using st fl zr ca unfolding b1_def[symmetric] by (simp only: later) simp
qed

theorem failure_is_permanent_witness:
  "dispatches sampleService sampleMessage mountedBubble
   \<and> getStoredZaniResponse
        (cache (processZani_settled sampleMessage Rejected
                  (processZani sampleService sampleMessage mountedBubble)))
        (messageId sampleMessage) = Some errorResponse
   \<and> (\<forall>b' n.
         zaniResponse
           ((processZani sampleService sampleMessage ^^ Suc n)
              (b'\<lparr>cache := cache (processZani_settled sampleMessage Rejected
                                     (processZani sampleService sampleMessage mountedBubble))\<rparr>))
           = Some errorResponse
       \<and> calls
           ((processZani sampleService sampleMessage ^^ Suc n)
              (b'\<lparr>cache := cache (processZani_settled sampleMessage Rejected
                                     (processZani sampleService sampleMessage mountedBubble))\<rparr>))
           = calls b')"
  using sample_dispatches failure_is_permanent[OF sample_dispatches] by blast

text \<open>
  C4. The claim: when the query service resolves with a text for the message M, the
  dispatcher writes the text to the cache under M's id, clears \<open>isProcessingZani\<close> and
  exposes the text. The code: lines 92 to 94 expose a non-empty text and line 101 clears
  the flag, but no line of the success path calls \<^verbatim>\<open>storeZaniResponse\<close>, which the \<^verbatim>\<open>catch\<close>
  block does in line 98: the cache is left as it was, and for the sample message nothing
  is retrievable after the answer \<^verbatim>\<open>hi\<close>, while the sentinel is after a rejection.
\<close>

theorem success_is_not_cached:
  "cache (processZani_settled m (Resolved text) b) = cache b
   \<and> \<not> isProcessingZani (processZani_settled m (Resolved text) b)
   \<and> zaniResponse (processZani_settled m (Resolved (c # cs)) b) = Some (c # cs)
   \<and> getStoredZaniResponse
        (cache (processZani_settled sampleMessage (Resolved (js ''hi''))
                  (processZani sampleService sampleMessage mountedBubble)))
        (messageId sampleMessage) = None
   \<and> getStoredZaniResponse
        (cache (processZani_settled sampleMessage Rejected
                  (processZani sampleService sampleMessage mountedBubble)))
        (messageId sampleMessage) = Some errorResponse"
proof -
  have d: "cache (processZani sampleService sampleMessage mountedBubble)
             = processZaniQuery_called (messageId sampleMessage) (cache mountedBubble)"
    by (simp add: processZani_dispatch[OF sample_dispatches]) (simp add: sampleService_def)
  have none: "getStoredZaniResponse
                (processZaniQuery_called (messageId sampleMessage) (cache mountedBubble))
                (messageId sampleMessage) = None"
    by (simp add: cache_defs mountedBubble_def)
  show ?thesis
    by (simp add: processZani_settled_def Let_def d none)
      (simp add: getStoredZaniResponse_def storeZaniResponse_def)
qed

text \<open>
  C5. The claim: \<open>formatMessageContent\<close> returns for every input string, file names with
  arbitrary Unicode characters included, and throws no error. The code at a file name
  with a code unit above 255 that the store does not resolve: \<^verbatim>\<open>btoa\<close> throws in line 226,
  outside every \<^verbatim>\<open>try\<close> block, and the exception leaves \<open>formatMessageContent\<close>.
\<close>

theorem formatMessageContent_throws:
  "formatMessageContent highlightZaniMentions NoItem draws k (paperclip @ [32, 20013] @ js ''.txt'')
     = Inl InvalidCharacterError
   \<and> formatMessageContent highlightZaniMentions Unreadable draws k (paperclip @ [32, 20013] @ js ''.txt'')
     = Inl InvalidCharacterError"
  by (simp add: formatMessageContent_def getActualFileUrl_def findEntry_def fallbackUrl_def
      btoa_def unfolded walk del: slow_steps)

text \<open>
  C6, as amended. For every content string and every state of the attachment store, two
  invocations of \<open>formatMessageContent\<close> agree on whether an error is raised, on the markup
  and on every attachment's name, type and url, and on the size of every attachment for
  which the store holds a size; only the sizes drawn from \<^verbatim>\<open>Math.random\<close> may differ.
\<close>

theorem deterministic_but_for_random_sizes:
  "map_sum id (withoutRandomSizes st) (formatMessageContent highlightZaniMentions st draws1 k1 c)
     = map_sum id (withoutRandomSizes st) (formatMessageContent highlightZaniMentions st draws2 k2 c)"
proof -
  let ?ms = "execAll filePattern c"
  have e: "map_sum id (map_prod id (map (blankRandomSize st))) (extractFiles st draws1 ?ms c [] k1)
         = map_sum id (map_prod id (map (blankRandomSize st))) (extractFiles st draws2 ?ms c [] k2)"
    by (rule extractFiles_draws) simp
  show ?thesis
  proof (cases "extractFiles st draws1 ?ms c [] k1")
    case (Inl e1)
    then show ?thesis using e
      by (cases "extractFiles st draws2 ?ms c [] k2") (auto simp: formatMessageContent_def)
  next
    case (Inr r1)
    obtain t1 f1 where r1: "r1 = (t1, f1)" by (cases r1)
    show ?thesis
    proof (cases "extractFiles st draws2 ?ms c [] k2")
      case (Inl e2)
      then show ?thesis using e Inr by simp
    next
      case r2: (Inr r2)
      obtain t2 f2 where p2: "r2 = (t2, f2)" by (cases r2)
      have "t1 = t2" and "map (blankRandomSize st) f1 = map (blankRandomSize st) f2"
        using e Inr r2 by (simp_all add: r1 p2)
      then show ?thesis using Inr r2
        by (simp add: formatMessageContent_def withoutRandomSizes_def r1 p2)
    qed
  qed
qed

text \<open>
  C6, as stated, fails: two invocations on the same content over the same store, the
  second one call of \<^verbatim>\<open>Math.random\<close> later, give different sizes.
\<close>

theorem random_size_differs:
  "formatMessageContent id NoItem id 0 (paperclip @ js '' a.txt'')
     \<noteq> formatMessageContent id NoItem id 1 (paperclip @ js '' a.txt'')"
  by (simp add: formatMessageContent_def getActualFileUrl_def getFileSize_def findEntry_def
      fallbackUrl_def btoa_def unfolded walk del: slow_steps)

text \<open>
  C7. The claim: the markup for \<^verbatim>\<open>![a](http://x/y.png)\<close> holds an image element whose source
  is exactly \<^verbatim>\<open>http://x/y.png\<close>. The code: the replacement of bare URLs (line 175) runs on
  the image element that line 170 has just made and rewrites the URL inside its \<^verbatim>\<open>src\<close>
  and \<^verbatim>\<open>onclick\<close> attributes, and line 188 then turns the text between two \<^verbatim>\<open>_blank\<close> into
  emphasis. The highlighter is taken to leave this text, which holds no \<^verbatim>\<open>@\<close>, as it is.
\<close>

theorem image_source_is_rewritten:
  \<open>urlStage (imageStage (js ''![a](http://x/y.png)'')) = js ''<img src="<a href="http://x/y.png"" target="_blank" rel="noopener noreferrer" class="text-blue-400 hover:underline">http://x/y.png"</a> alt="a" class="max-w-full rounded-md my-2 cursor-pointer hover:opacity-90 transition-opacity" style="max-height: 300px;" onclick="window.open('<a href="http://x/y.png'," target="_blank" rel="noopener noreferrer" class="text-blue-400 hover:underline">http://x/y.png',</a> '_blank')" />''
   \<and> formatMessageContent id st draws k (js ''![a](http://x/y.png)'') =
       Inr \<lparr>formattedContent = js ''<img src="<a href="http://x/y.png"" target="<em>blank" rel="noopener noreferrer" class="text-blue-400 hover:underline">http://x/y.png"</a> alt="a" class="max-w-full rounded-md my-2 cursor-pointer hover:opacity-90 transition-opacity" style="max-height: 300px;" onclick="window.open('<a href="http://x/y.png'," target="</em>blank" rel="noopener noreferrer" class="text-blue-400 hover:underline">http://x/y.png',</a> '_blank')" />'', files = []\<rparr>\<close>
  by (simp add: formatMessageContent_def stages unfolded walk del: slow_steps)

text \<open>
  C8. The claim: the replacement of ordinary mentions never rewrites the assistant token
  \<^verbatim>\<open>@zani\<close>. The code: \<open>mentionRegex\<close> tests its lookahead after \<^verbatim>\<open>\w+\<close> has taken the whole
  word, where it never refuses (\<open>mentionRegex_ignores_lookahead\<close>), so \<^verbatim>\<open>@zani\<close> is
  rewritten like any other mention; in \<^verbatim>\<open>@zani-bot\<close> the span closes before \<^verbatim>\<open>-bot\<close>.
\<close>

theorem mention_stage_rewrites_zani:
  \<open>mentionStage (js ''@zani hello'') =
     js ''<span class="text-blue-400 hover:underline cursor-pointer">@zani</span> hello''
   \<and> formatMessageContent id st draws k (js ''@alice asked @zani-bot something'') =
       Inr \<lparr>formattedContent = js ''<span class="text-blue-400 hover:underline cursor-pointer">@alice</span> asked <span class="text-blue-400 hover:underline cursor-pointer">@zani</span>-bot something'',
            files = []\<rparr>\<close>
  by (simp add: formatMessageContent_def stages unfolded walk del: slow_steps)

text \<open>
  C9. The content made of the attachment line \<^verbatim>\<open>G report.pdf\<close> (\<^verbatim>\<open>G\<close> the glyph U+1F4CE), a
  newline and \<^verbatim>\<open>hello\<close> yields exactly one attachment, with the name \<^verbatim>\<open>report.pdf\<close> and the
  type \<^verbatim>\<open>application/pdf\<close>, and the markup \<^verbatim>\<open>hello\<close>, whatever the store holds, for every
  highlighter that leaves \<^verbatim>\<open>hello\<close> as it is.
\<close>

theorem attachment_line_is_extracted:
  assumes "highlightZaniMentions (js ''hello'') = js ''hello''"
  shows "\<exists>u z. formatMessageContent highlightZaniMentions st draws k
                  (paperclip @ js '' report.pdf'' @ [10] @ js ''hello'')
               = Inr \<lparr>formattedContent = js ''hello'',
                      files = [\<lparr>name = js ''report.pdf'', type = js ''application/pdf'',
                                url = u, size = z\<rparr>]\<rparr>"
proof -
  obtain u where u: "getActualFileUrl st (js ''report.pdf'') = Inr u"
    using report_url by blast
  obtain z k' where z: "getFileSize st draws k (js ''report.pdf'') = (z, k')"
    by (cases "getFileSize st draws k (js ''report.pdf'')")
  have "formatMessageContent highlightZaniMentions st draws k
          (paperclip @ js '' report.pdf'' @ [10] @ js ''hello'')
        = Inr \<lparr>formattedContent = js ''hello'',
               files = [\<lparr>name = js ''report.pdf'', type = js ''application/pdf'',
                         url = u, size = z\<rparr>]\<rparr>"
    using u z assms
    by (simp add: formatMessageContent_def getFileType_def stages unfolded walk del: slow_steps)
  then show ?thesis by blast
qed

theorem attachment_line_is_extracted_witness:
  "id (js ''hello'') = js ''hello''
   \<and> (\<exists>u z. formatMessageContent id NoItem id 0 (paperclip @ js '' report.pdf'' @ [10] @ js ''hello'')
               = Inr \<lparr>formattedContent = js ''hello'',
                      files = [\<lparr>name = js ''report.pdf'', type = js ''application/pdf'',
                                url = u, size = z\<rparr>]\<rparr>)"
  using attachment_line_is_extracted[of id NoItem id 0] by simp




end
